theory Spec2Isabelle
  imports Main
begin

section \<open>Data model\<close>

text \<open>
  The type declarations of the application (Article, Product, CartItem) are imported by
  the main component from a module of their own. The records below carry the fields the
  main component reads or writes: the identity of an article and of a product, the two
  display fields the placeholder article gives, and the quantity of a cart item.
  JavaScript numbers that hold identities and quantities are integers here.
\<close>

record article =
  id_article :: int
  title :: string
  url :: string

record product =
  id_product :: int
  price :: int

record cart_item =
  product :: product
  quantity :: int

section \<open>JavaScript arrays with holes\<close>

text \<open>
  The result array of the slot filling starts empty and is written by index, so it can
  have holes. An array is a list of optional values: a hole, \<open>undefined\<close> and \<open>null\<close>
  are \<open>None\<close>. Reading past the end gives \<open>undefined\<close>; writing past the end extends the
  array, leaving holes in between.
\<close>

definition js_get :: "'a option list \<Rightarrow> nat \<Rightarrow> 'a option" where
  "js_get xs i = (if i < length xs then xs ! i else None)"

definition js_set :: "'a option list \<Rightarrow> nat \<Rightarrow> 'a \<Rightarrow> 'a option list" where
  "js_set xs i v =
     (if i < length xs then xs[i := Some v]
      else xs @ replicate (i - length xs) None @ [Some v])"

section \<open>The cart handlers\<close>

text \<open>
  Each handler passes a function from the previous cart to the next one to the state
  setter; the functions are modelled, with the cart as an explicit argument.
\<close>

definition addToCart :: "product \<Rightarrow> cart_item list \<Rightarrow> cart_item list" where
  "addToCart p prev =
     (case find (\<lambda>item. id_product (product item) = id_product p) prev of
        Some existing \<Rightarrow>
          map (\<lambda>item. if id_product (product item) = id_product p
                       then item\<lparr>quantity := quantity item + 1\<rparr> else item) prev
      | None \<Rightarrow> prev @ [\<lparr>product = p, quantity = 1\<rparr>])"

definition removeFromCart :: "int \<Rightarrow> cart_item list \<Rightarrow> cart_item list" where
  "removeFromCart productId prev =
     filter (\<lambda>item. id_product (product item) \<noteq> productId) prev"

definition updateCartQuantity :: "int \<Rightarrow> int \<Rightarrow> cart_item list \<Rightarrow> cart_item list" where
  "updateCartQuantity productId delta prev =
     map (\<lambda>item.
            if id_product (product item) = productId
            then (let newQ = quantity item + delta
                  in if newQ < 1 then item else item\<lparr>quantity := newQ\<rparr>)
            else item) prev"

text \<open>The operations a user can trigger on the cart, and a run of them from a cart.\<close>

datatype cart_op = Add product | Remove int | SetQuantityDelta int int

fun apply_cart_op :: "cart_item list \<Rightarrow> cart_op \<Rightarrow> cart_item list" where
  "apply_cart_op c (Add p) = addToCart p c"
| "apply_cart_op c (Remove productId) = removeFromCart productId c"
| "apply_cart_op c (SetQuantityDelta productId delta) = updateCartQuantity productId delta c"

definition run_cart_ops :: "cart_op list \<Rightarrow> cart_item list" where
  "run_cart_ops ops = foldl apply_cart_op [] ops"

section \<open>Related articles: the four slots\<close>

text \<open>
  \<open>related_articles\<close> of the active lesson may be missing; its entries may be missing or
  null too. A missing list is \<open>None\<close>, and the code then works on the empty list.
\<close>

definition configIds :: "int option list option \<Rightarrow> int option list" where
  "configIds related_articles = (case related_articles of None \<Rightarrow> [] | Some ids \<Rightarrow> ids)"

text \<open>Truthiness of a configured id: undefined, null and 0 are falsy.\<close>

definition truthy_id :: "int option \<Rightarrow> bool" where
  "truthy_id v = (case v of None \<Rightarrow> False | Some n \<Rightarrow> n \<noteq> 0)"

text \<open>The body of the first loop, at index \<open>i\<close>, on the result array and the used ids.\<close>

definition fixed_slot_step ::
  "int option list \<Rightarrow> article list \<Rightarrow> nat \<Rightarrow> article option list \<times> int set
     \<Rightarrow> article option list \<times> int set" where
  "fixed_slot_step cfg articles i st =
     (let ident = js_get cfg i in
      if truthy_id ident then
        (case find (\<lambda>a. Some (id_article a) = ident) articles of
           Some art \<Rightarrow> (js_set (fst st) i art, insert (id_article art) (snd st))
         | None \<Rightarrow> st)
      else st)"

function fill_fixed_slots ::
  "int option list \<Rightarrow> article list \<Rightarrow> nat \<Rightarrow> article option list \<times> int set
     \<Rightarrow> article option list \<times> int set" where
  "fill_fixed_slots cfg articles i st =
     (if i < 4 then fill_fixed_slots cfg articles (Suc i) (fixed_slot_step cfg articles i st)
      else st)"
  by pat_completeness auto
termination
  by (relation "measure (\<lambda>(cfg, articles, i, st). 4 - i)") auto

text \<open>What the second loop writes when the fillers are used up.\<close>

definition no_article :: article where
  "no_article = \<lparr>id_article = 0, title = ''No Article'', url = ''#''\<rparr>"

definition fallback_article :: "article list \<Rightarrow> article" where
  "fallback_article articles = (case articles of [] \<Rightarrow> no_article | a # _ \<Rightarrow> a)"

text \<open>The body of the second loop, on the result array and \<open>fillerIndex\<close>.\<close>

definition empty_slot_step ::
  "article list \<Rightarrow> article list \<Rightarrow> nat \<Rightarrow> article option list \<times> nat
     \<Rightarrow> article option list \<times> nat" where
  "empty_slot_step articles fillers i st =
     (if js_get (fst st) i = None then
        (if snd st < length fillers
         then (js_set (fst st) i (fillers ! snd st), snd st + 1)
         else (js_set (fst st) i (fallback_article articles), snd st))
      else st)"

function fill_empty_slots ::
  "article list \<Rightarrow> article list \<Rightarrow> nat \<Rightarrow> article option list \<times> nat
     \<Rightarrow> article option list \<times> nat" where
  "fill_empty_slots articles fillers i st =
     (if i < 4 then fill_empty_slots articles fillers (Suc i) (empty_slot_step articles fillers i st)
      else st)"
  by pat_completeness auto
termination
  by (relation "measure (\<lambda>(articles, fillers, i, st). 4 - i)") auto

definition fillers_of :: "article list \<Rightarrow> int set \<Rightarrow> article list" where
  "fillers_of articles usedIds = filter (\<lambda>a. id_article a \<notin> usedIds) articles"

definition currentRelatedArticles ::
  "int option list option \<Rightarrow> article list \<Rightarrow> article option list" where
  "currentRelatedArticles related_articles articles =
     (let st1 = fill_fixed_slots (configIds related_articles) articles 0 ([], {});
          fillers = fillers_of articles (snd st1)
      in fst (fill_empty_slots articles fillers 0 (fst st1, 0)))"

section \<open>The cart: invariant and the three handlers\<close>

lemma map_preserves_ids:
  assumes "\<And>item. product (f item) = product item"
  shows "map (\<lambda>item. id_product (product item)) (map f c) = map (\<lambda>item. id_product (product item)) c"
  using assms by (induction c) simp_all

lemma addToCart_quantity:
  assumes "\<forall>item\<in>set c. 1 \<le> quantity item"
  shows "\<forall>item\<in>set (addToCart p c). 1 \<le> quantity item"
  using assms by (auto simp: addToCart_def split: option.splits)

lemma addToCart_distinct:
  assumes "distinct (map (\<lambda>item. id_product (product item)) c)"
  shows "distinct (map (\<lambda>item. id_product (product item)) (addToCart p c))"
proof (cases "find (\<lambda>item. id_product (product item) = id_product p) c")
  case None
  then have "id_product p \<notin> (\<lambda>item. id_product (product item)) ` set c"
    by (auto simp: find_None_iff)
  with assms None show ?thesis by (simp add: addToCart_def)
next
  case (Some existing)
  have "map (\<lambda>item. id_product (product item))
          (map (\<lambda>item. if id_product (product item) = id_product p
                       then item\<lparr>quantity := quantity item + 1\<rparr> else item) c)
        = map (\<lambda>item. id_product (product item)) c"
    by (rule map_preserves_ids) simp
  then have "map (\<lambda>item. id_product (product item)) (addToCart p c)
        = map (\<lambda>item. id_product (product item)) c"
    using Some by (simp only: addToCart_def option.case)
  with assms show ?thesis by (simp only:)
qed

lemma removeFromCart_quantity:
  assumes "\<forall>item\<in>set c. 1 \<le> quantity item"
  shows "\<forall>item\<in>set (removeFromCart productId c). 1 \<le> quantity item"
  using assms by (simp add: removeFromCart_def)

lemma removeFromCart_distinct:
  assumes "distinct (map (\<lambda>item. id_product (product item)) c)"
  shows "distinct (map (\<lambda>item. id_product (product item)) (removeFromCart productId c))"
  using assms unfolding removeFromCart_def by (rule distinct_map_filter)

lemma updateCartQuantity_quantity:
  assumes "\<forall>item\<in>set c. 1 \<le> quantity item"
  shows "\<forall>item\<in>set (updateCartQuantity productId delta c). 1 \<le> quantity item"
  using assms by (auto simp: updateCartQuantity_def Let_def)

lemma updateCartQuantity_distinct:
  assumes "distinct (map (\<lambda>item. id_product (product item)) c)"
  shows "distinct (map (\<lambda>item. id_product (product item)) (updateCartQuantity productId delta c))"
proof -
  have "map (\<lambda>item. id_product (product item)) (updateCartQuantity productId delta c)
        = map (\<lambda>item. id_product (product item)) c"
    unfolding updateCartQuantity_def by (rule map_preserves_ids) (simp add: Let_def)
  with assms show ?thesis by (simp only:)
qed

lemma apply_cart_op_inv:
  assumes q: "\<forall>item\<in>set c. 1 \<le> quantity item"
    and d: "distinct (map (\<lambda>item. id_product (product item)) c)"
  shows "(\<forall>item\<in>set (apply_cart_op c x). 1 \<le> quantity item)
         \<and> distinct (map (\<lambda>item. id_product (product item)) (apply_cart_op c x))"
proof (cases x)
  case (Add p)
  show ?thesis
    unfolding Add apply_cart_op.simps
    using addToCart_quantity [OF q] addToCart_distinct [OF d] by (rule conjI)
next
  case (Remove productId)
  show ?thesis
    unfolding Remove apply_cart_op.simps
    using removeFromCart_quantity [OF q] removeFromCart_distinct [OF d] by (rule conjI)
next
  case (SetQuantityDelta productId delta)
  show ?thesis
    unfolding SetQuantityDelta apply_cart_op.simps
    using updateCartQuantity_quantity [OF q] updateCartQuantity_distinct [OF d] by (rule conjI)
qed

lemma foldl_cart_inv:
  assumes "(\<forall>item\<in>set c. 1 \<le> quantity item) \<and> distinct (map (\<lambda>item. id_product (product item)) c)"
  shows "(\<forall>item\<in>set (foldl apply_cart_op c ops). 1 \<le> quantity item)
         \<and> distinct (map (\<lambda>item. id_product (product item)) (foldl apply_cart_op c ops))"
  using assms
proof (induction ops arbitrary: c)
  case Nil
  then show ?case by simp
next
  case (Cons x ops)
  from Cons.prems have "(\<forall>item\<in>set (apply_cart_op c x). 1 \<le> quantity item)
         \<and> distinct (map (\<lambda>item. id_product (product item)) (apply_cart_op c x))"
    using apply_cart_op_inv by blast
  then show ?case using Cons.IH by simp
qed

text \<open>
  Claim C3. Every cart reached from the empty cart by any sequence of add, remove and
  quantity-delta operations has only entries of quantity at least 1, and no two of its
  entries have the same product id.
\<close>

theorem cart_reachable_invariant:
  "(\<forall>item\<in>set (run_cart_ops ops). 1 \<le> quantity item)
   \<and> distinct (map (\<lambda>item. id_product (product item)) (run_cart_ops ops))"
  unfolding run_cart_ops_def by (rule foldl_cart_inv) simp

text \<open>The invariant of C3 on a run that adds twice, tries to go below 1 and removes an absent id.\<close>

theorem cart_reachable_invariant_witness:
  "run_cart_ops [Add \<lparr>id_product = 7, price = 30\<rparr>, Add \<lparr>id_product = 8, price = 5\<rparr>,
                 Add \<lparr>id_product = 7, price = 30\<rparr>, SetQuantityDelta 7 (- 5), Remove 9]
     = [\<lparr>product = \<lparr>id_product = 7, price = 30\<rparr>, quantity = 2\<rparr>,
        \<lparr>product = \<lparr>id_product = 8, price = 5\<rparr>, quantity = 1\<rparr>]
   \<and> 1 \<le> quantity (run_cart_ops [Add \<lparr>id_product = 7, price = 30\<rparr>, Add \<lparr>id_product = 8, price = 5\<rparr>,
                 Add \<lparr>id_product = 7, price = 30\<rparr>, SetQuantityDelta 7 (- 5), Remove 9] ! 0)
   \<and> 1 \<le> quantity (run_cart_ops [Add \<lparr>id_product = 7, price = 30\<rparr>, Add \<lparr>id_product = 8, price = 5\<rparr>,
                 Add \<lparr>id_product = 7, price = 30\<rparr>, SetQuantityDelta 7 (- 5), Remove 9] ! 1)
   \<and> distinct (map (\<lambda>item. id_product (product item)) (run_cart_ops [Add \<lparr>id_product = 7, price = 30\<rparr>, Add \<lparr>id_product = 8, price = 5\<rparr>,
                 Add \<lparr>id_product = 7, price = 30\<rparr>, SetQuantityDelta 7 (- 5), Remove 9]))"
proof -
  let ?ops = "[Add \<lparr>id_product = 7, price = 30\<rparr>, Add \<lparr>id_product = 8, price = 5\<rparr>,
                 Add \<lparr>id_product = 7, price = 30\<rparr>, SetQuantityDelta 7 (- 5), Remove 9]"
  have run: "run_cart_ops ?ops
     = [\<lparr>product = \<lparr>id_product = 7, price = 30\<rparr>, quantity = 2\<rparr>,
        \<lparr>product = \<lparr>id_product = 8, price = 5\<rparr>, quantity = 1\<rparr>]"
    by (simp add: run_cart_ops_def addToCart_def updateCartQuantity_def removeFromCart_def)
  have m0: "run_cart_ops ?ops ! 0 \<in> set (run_cart_ops ?ops)"
    and m1: "run_cart_ops ?ops ! 1 \<in> set (run_cart_ops ?ops)"
    unfolding run by simp_all
  from cart_reachable_invariant [of ?ops] m0 m1 run show ?thesis by blast
qed

text \<open>
  Claim C4. The quantity-delta operation returns the cart unchanged when no entry has the
  product id; it keeps the length of the cart, leaves every entry of another product
  alone, leaves an entry of the product alone when quantity + delta is below 1 (so never
  removes it), and otherwise replaces its quantity by quantity + delta. Adding a product
  to the empty cart and then applying delta -5 leaves its quantity at 1.
\<close>

theorem updateCartQuantity_cases:
  "((\<forall>item\<in>set c. id_product (product item) \<noteq> productId)
      \<longrightarrow> updateCartQuantity productId delta c = c)
   \<and> length (updateCartQuantity productId delta c) = length c
   \<and> (\<forall>i<length c.
        (id_product (product (c ! i)) \<noteq> productId
           \<longrightarrow> updateCartQuantity productId delta c ! i = c ! i)
      \<and> (id_product (product (c ! i)) = productId \<and> quantity (c ! i) + delta < 1
           \<longrightarrow> updateCartQuantity productId delta c ! i = c ! i)
      \<and> (id_product (product (c ! i)) = productId \<and> \<not> quantity (c ! i) + delta < 1
           \<longrightarrow> updateCartQuantity productId delta c ! i
                 = \<lparr>product = product (c ! i), quantity = quantity (c ! i) + delta\<rparr>))
   \<and> updateCartQuantity (id_product p) (- 5) (addToCart p []) = [\<lparr>product = p, quantity = 1\<rparr>]"
proof -
  have a: "(\<forall>item\<in>set c. id_product (product item) \<noteq> productId)
      \<longrightarrow> updateCartQuantity productId delta c = c"
    by (auto simp: updateCartQuantity_def map_idI)
  have b: "length (updateCartQuantity productId delta c) = length c"
    by (simp add: updateCartQuantity_def)
  have d: "updateCartQuantity (id_product p) (- 5) (addToCart p []) = [\<lparr>product = p, quantity = 1\<rparr>]"
    by (simp add: updateCartQuantity_def addToCart_def)
  have e: "\<forall>i<length c.
        (id_product (product (c ! i)) \<noteq> productId
           \<longrightarrow> updateCartQuantity productId delta c ! i = c ! i)
      \<and> (id_product (product (c ! i)) = productId \<and> quantity (c ! i) + delta < 1
           \<longrightarrow> updateCartQuantity productId delta c ! i = c ! i)
      \<and> (id_product (product (c ! i)) = productId \<and> \<not> quantity (c ! i) + delta < 1
           \<longrightarrow> updateCartQuantity productId delta c ! i
                 = \<lparr>product = product (c ! i), quantity = quantity (c ! i) + delta\<rparr>)"
    by (simp add: updateCartQuantity_def Let_def)
  from a b d e show ?thesis by blast
qed

text \<open>The three cases of C4 on a cart of two entries: absent id, decrement, floor.\<close>

theorem updateCartQuantity_cases_witness:
  "updateCartQuantity 9 2 [\<lparr>product = \<lparr>id_product = 7, price = 30\<rparr>, quantity = 3\<rparr>,
                              \<lparr>product = \<lparr>id_product = 8, price = 5\<rparr>, quantity = 1\<rparr>]
       = [\<lparr>product = \<lparr>id_product = 7, price = 30\<rparr>, quantity = 3\<rparr>,
          \<lparr>product = \<lparr>id_product = 8, price = 5\<rparr>, quantity = 1\<rparr>]
   \<and> updateCartQuantity 7 (- 1) [\<lparr>product = \<lparr>id_product = 7, price = 30\<rparr>, quantity = 3\<rparr>,
                                  \<lparr>product = \<lparr>id_product = 8, price = 5\<rparr>, quantity = 1\<rparr>] ! 0
       = \<lparr>product = \<lparr>id_product = 7, price = 30\<rparr>, quantity = 2\<rparr>
   \<and> updateCartQuantity 7 (- 1) [\<lparr>product = \<lparr>id_product = 7, price = 30\<rparr>, quantity = 3\<rparr>,
                                  \<lparr>product = \<lparr>id_product = 8, price = 5\<rparr>, quantity = 1\<rparr>] ! 1
       = \<lparr>product = \<lparr>id_product = 8, price = 5\<rparr>, quantity = 1\<rparr>
   \<and> updateCartQuantity 8 (- 1) [\<lparr>product = \<lparr>id_product = 7, price = 30\<rparr>, quantity = 3\<rparr>,
                                  \<lparr>product = \<lparr>id_product = 8, price = 5\<rparr>, quantity = 1\<rparr>] ! 1
       = \<lparr>product = \<lparr>id_product = 8, price = 5\<rparr>, quantity = 1\<rparr>"
proof -
  let ?c = "[\<lparr>product = \<lparr>id_product = 7, price = 30\<rparr>, quantity = 3\<rparr>,
             \<lparr>product = \<lparr>id_product = 8, price = 5\<rparr>, quantity = 1\<rparr>]"
  have absent: "\<forall>item\<in>set ?c. id_product (product item) \<noteq> 9" by simp
  have unchanged: "updateCartQuantity 9 2 ?c = ?c"
    using updateCartQuantity_cases [where c = ?c and productId = 9 and delta = 2] absent
    by blast
  have i0: "(0::nat) < length ?c" and i1: "(1::nat) < length ?c" by simp_all
  have dec: "updateCartQuantity 7 (- 1) ?c ! 0
             = \<lparr>product = product (?c ! 0), quantity = quantity (?c ! 0) + (- 1)\<rparr>"
  proof -
    have "id_product (product (?c ! 0)) = 7 \<and> \<not> quantity (?c ! 0) + (- 1) < 1" by simp
    then show ?thesis
      using updateCartQuantity_cases [where c = ?c and productId = 7 and delta = "- 1"] i0
      by blast
  qed
  have other: "updateCartQuantity 7 (- 1) ?c ! 1 = ?c ! 1"
  proof -
    have "id_product (product (?c ! 1)) \<noteq> 7" by simp
    then show ?thesis
      using updateCartQuantity_cases [where c = ?c and productId = 7 and delta = "- 1"] i1
      by blast
  qed
  have floor: "updateCartQuantity 8 (- 1) ?c ! 1 = ?c ! 1"
  proof -
    have "id_product (product (?c ! 1)) = 8 \<and> quantity (?c ! 1) + (- 1) < 1" by simp
    then show ?thesis
      using updateCartQuantity_cases [where c = ?c and productId = 8 and delta = "- 1"] i1
      by blast
  qed
  from unchanged dec other floor show ?thesis by simp
qed

text \<open>
  Claim C9. Removing a product id twice gives the same cart as removing it once, and
  removing an id that no entry has returns the cart unchanged.
\<close>

theorem removeFromCart_idempotent:
  "removeFromCart productId (removeFromCart productId c) = removeFromCart productId c
   \<and> ((\<forall>item\<in>set c. id_product (product item) \<noteq> productId)
        \<longrightarrow> removeFromCart productId c = c)"
  by (auto simp: removeFromCart_def filter_id_conv)

text \<open>C9 on a cart that does not hold the removed id.\<close>

theorem removeFromCart_idempotent_witness:
  "removeFromCart 9 [\<lparr>product = \<lparr>id_product = 7, price = 30\<rparr>, quantity = 3\<rparr>]
       = [\<lparr>product = \<lparr>id_product = 7, price = 30\<rparr>, quantity = 3\<rparr>]
   \<and> removeFromCart 7 (removeFromCart 7 [\<lparr>product = \<lparr>id_product = 7, price = 30\<rparr>, quantity = 3\<rparr>])
       = removeFromCart 7 [\<lparr>product = \<lparr>id_product = 7, price = 30\<rparr>, quantity = 3\<rparr>]"
proof -
  let ?c = "[\<lparr>product = \<lparr>id_product = 7, price = 30\<rparr>, quantity = 3\<rparr>]"
  have absent: "\<forall>item\<in>set ?c. id_product (product item) \<noteq> 9" by simp
  have unchanged: "removeFromCart 9 ?c = ?c"
    using removeFromCart_idempotent [where c = ?c and productId = 9] absent by blast
  have twice: "removeFromCart 7 (removeFromCart 7 ?c) = removeFromCart 7 ?c"
    using removeFromCart_idempotent [where c = ?c and productId = 7] by blast
  from unchanged twice show ?thesis by (rule conjI)
qed

section \<open>Related articles: the two loops, slot by slot\<close>

lemma js_get_js_set:
  "js_get (js_set xs i v) j = (if j = i then Some v else js_get xs j)"
  by (auto simp: js_get_def js_set_def nth_append)

lemma length_js_set: "length (js_set xs i v) = max (length xs) (Suc i)"
  by (auto simp: js_set_def)

lemma js_get_Some_length: "js_get xs i = Some v \<Longrightarrow> i < length xs"
  by (auto simp: js_get_def split: if_splits)

lemma js_get_Nil [simp]: "js_get [] i = None"
  by (simp add: js_get_def)

declare fill_fixed_slots.simps [simp del]
declare fill_empty_slots.simps [simp del]

lemma fixed_slot_step_get:
  "js_get (fst (fixed_slot_step cfg articles i st)) j =
     (if j = i \<and> truthy_id (js_get cfg i)
          \<and> find (\<lambda>a. Some (id_article a) = js_get cfg i) articles \<noteq> None
      then find (\<lambda>a. Some (id_article a) = js_get cfg i) articles
      else js_get (fst st) j)"
  by (auto simp: fixed_slot_step_def Let_def js_get_js_set split: option.splits)

lemma fixed_slot_step_used:
  "snd (fixed_slot_step cfg articles i st) =
     (if truthy_id (js_get cfg i) then
        (case find (\<lambda>a. Some (id_article a) = js_get cfg i) articles of
           Some art \<Rightarrow> insert (id_article art) (snd st) | None \<Rightarrow> snd st)
      else snd st)"
  by (auto simp: fixed_slot_step_def Let_def split: option.splits)

lemma fixed_slot_step_length:
  "i < 4 \<Longrightarrow> length (fst st) \<le> 4 \<Longrightarrow> length (fst (fixed_slot_step cfg articles i st)) \<le> 4"
  by (auto simp: fixed_slot_step_def Let_def length_js_set split: option.splits)

lemma fill_fixed_slots_get:
  "js_get (fst (fill_fixed_slots cfg articles i st)) j =
     (if i \<le> j \<and> j < 4 \<and> truthy_id (js_get cfg j)
          \<and> find (\<lambda>a. Some (id_article a) = js_get cfg j) articles \<noteq> None
      then find (\<lambda>a. Some (id_article a) = js_get cfg j) articles
      else js_get (fst st) j)"
proof (induction cfg articles i st rule: fill_fixed_slots.induct)
  case (1 cfg articles i st)
  show ?case
  proof (cases "i < 4")
    case True
    have e: "fill_fixed_slots cfg articles i st
          = fill_fixed_slots cfg articles (Suc i) (fixed_slot_step cfg articles i st)"
      using True by (subst fill_fixed_slots.simps) simp
    have s: "(i \<le> j) = (j = i \<or> Suc i \<le> j)" by auto
    show ?thesis
      unfolding e "1.IH" [OF True] fixed_slot_step_get s
      using True by auto
  next
    case False
    then show ?thesis by (subst fill_fixed_slots.simps) auto
  qed
qed

lemma fill_fixed_slots_length:
  "length (fst st) \<le> 4 \<Longrightarrow> length (fst (fill_fixed_slots cfg articles i st)) \<le> 4"
proof (induction cfg articles i st rule: fill_fixed_slots.induct)
  case (1 cfg articles i st)
  show ?case
  proof (cases "i < 4")
    case True
    have "fill_fixed_slots cfg articles i st
          = fill_fixed_slots cfg articles (Suc i) (fixed_slot_step cfg articles i st)"
      using True by (subst fill_fixed_slots.simps) simp
    then show ?thesis
      using "1.IH" [OF True] True "1.prems" by (simp add: fixed_slot_step_length)
  next
    case False
    then show ?thesis using "1.prems" by (subst fill_fixed_slots.simps) simp
  qed
qed

lemma fill_fixed_slots_used:
  "snd (fill_fixed_slots cfg articles i st) =
     snd st \<union> {id_article art | art j. i \<le> j \<and> j < 4 \<and> truthy_id (js_get cfg j)
                  \<and> find (\<lambda>a. Some (id_article a) = js_get cfg j) articles = Some art}"
proof (induction cfg articles i st rule: fill_fixed_slots.induct)
  case (1 cfg articles i st)
  show ?case
  proof (cases "i < 4")
    case True
    have e: "fill_fixed_slots cfg articles i st
          = fill_fixed_slots cfg articles (Suc i) (fixed_slot_step cfg articles i st)"
      using True by (subst fill_fixed_slots.simps) simp
    have s: "\<And>j. (i \<le> j) = (j = i \<or> Suc i \<le> j)" by auto
    show ?thesis
      unfolding e "1.IH" [OF True] fixed_slot_step_used
      using True by (auto split: option.splits simp: s)
  next
    case False
    then show ?thesis by (subst fill_fixed_slots.simps) auto
  qed
qed

lemma empty_slot_step_get:
  "js_get (fst (empty_slot_step articles fillers i st)) j =
     (if j = i \<and> js_get (fst st) i = None
      then Some (if snd st < length fillers then fillers ! snd st else fallback_article articles)
      else js_get (fst st) j)"
  by (auto simp: empty_slot_step_def js_get_js_set)

lemma empty_slot_step_index:
  "snd (empty_slot_step articles fillers i st) =
     (if js_get (fst st) i = None \<and> snd st < length fillers then Suc (snd st) else snd st)"
  by (auto simp: empty_slot_step_def)

lemma empty_slot_step_length:
  "i < 4 \<Longrightarrow> length (fst st) \<le> 4 \<Longrightarrow> length (fst (empty_slot_step articles fillers i st)) \<le> 4"
  by (auto simp: empty_slot_step_def length_js_set)

lemma fill_empty_slots_length:
  "length (fst st) \<le> 4 \<Longrightarrow> length (fst (fill_empty_slots articles fillers i st)) \<le> 4"
proof (induction articles fillers i st rule: fill_empty_slots.induct)
  case (1 articles fillers i st)
  show ?case
  proof (cases "i < 4")
    case True
    have "fill_empty_slots articles fillers i st
          = fill_empty_slots articles fillers (Suc i) (empty_slot_step articles fillers i st)"
      using True by (subst fill_empty_slots.simps) simp
    then show ?thesis
      using "1.IH" [OF True] True "1.prems" by (simp add: empty_slot_step_length)
  next
    case False
    then show ?thesis using "1.prems" by (subst fill_empty_slots.simps) simp
  qed
qed

lemma empties_cong:
  assumes "\<And>k. k \<in> set ks \<Longrightarrow> js_get xs k = js_get ys k"
  shows "filter (\<lambda>k. js_get xs k = None) ks = filter (\<lambda>k. js_get ys k = None) ks"
  using assms by (intro filter_cong) simp_all

lemma fill_empty_slots_get:
  "js_get (fst (fill_empty_slots articles fillers i st)) j =
     (if i \<le> j \<and> j < 4 \<and> js_get (fst st) j = None
      then Some (let n = snd st + length (filter (\<lambda>k. js_get (fst st) k = None) [i..<j])
                 in if n < length fillers then fillers ! n else fallback_article articles)
      else js_get (fst st) j)"
proof (induction articles fillers i st arbitrary: j rule: fill_empty_slots.induct)
  case (1 articles fillers i st)
  show ?case
  proof (cases "i < 4")
    case True
    let ?st' = "empty_slot_step articles fillers i st"
    have e: "fill_empty_slots articles fillers i st = fill_empty_slots articles fillers (Suc i) ?st'"
      using True by (subst fill_empty_slots.simps) simp
    note IH = "1.IH" [OF True, of j]
    show ?thesis
    proof (cases "i < j")
      case False
      then show ?thesis
        unfolding e IH using True by (auto simp: empty_slot_step_get Let_def)
    next
      case ij: True
      have same: "js_get (fst ?st') j = js_get (fst st) j"
        using ij by (simp add: empty_slot_step_get)
      have cnt': "filter (\<lambda>k. js_get (fst ?st') k = None) [Suc i..<j]
                  = filter (\<lambda>k. js_get (fst st) k = None) [Suc i..<j]"
        by (rule empties_cong) (simp add: empty_slot_step_get)
      have upt: "[i..<j] = i # [Suc i..<j]"
        using ij by (simp add: upt_conv_Cons)
      show ?thesis
        unfolding e IH same cnt' upt empty_slot_step_index
        using ij by (auto simp: Let_def)
    qed
  next
    case False
    then show ?thesis by (subst fill_empty_slots.simps) auto
  qed
qed

section \<open>Related articles: the returned grid\<close>

lemma first_pass_get:
  "js_get (fst (fill_fixed_slots cfg articles 0 ([], {}))) j =
     (if j < 4 \<and> truthy_id (js_get cfg j)
      then find (\<lambda>a. Some (id_article a) = js_get cfg j) articles
      else None)"
  by (auto simp: fill_fixed_slots_get)

lemma first_pass_used:
  "snd (fill_fixed_slots cfg articles 0 ([], {})) =
     {id_article art | art j. j < 4 \<and> truthy_id (js_get cfg j)
         \<and> find (\<lambda>a. Some (id_article a) = js_get cfg j) articles = Some art}"
  by (simp add: fill_fixed_slots_used)

lemma currentRelatedArticles_get:
  assumes "j < 4"
  shows "js_get (currentRelatedArticles ra articles) j =
     (if js_get (fst (fill_fixed_slots (configIds ra) articles 0 ([], {}))) j = None
      then Some (if length (filter (\<lambda>k. js_get (fst (fill_fixed_slots (configIds ra) articles 0 ([], {}))) k = None) [0..<j])
                      < length (fillers_of articles (snd (fill_fixed_slots (configIds ra) articles 0 ([], {}))))
                 then fillers_of articles (snd (fill_fixed_slots (configIds ra) articles 0 ([], {})))
                        ! length (filter (\<lambda>k. js_get (fst (fill_fixed_slots (configIds ra) articles 0 ([], {}))) k = None) [0..<j])
                 else fallback_article articles)
      else js_get (fst (fill_fixed_slots (configIds ra) articles 0 ([], {}))) j)"
  using assms by (simp add: currentRelatedArticles_def Let_def fill_empty_slots_get)

lemma currentRelatedArticles_filled:
  assumes "j < 4"
  shows "js_get (currentRelatedArticles ra articles) j \<noteq> None"
  unfolding currentRelatedArticles_get [OF assms] by simp

lemma currentRelatedArticles_length: "length (currentRelatedArticles ra articles) = 4"
proof -
  have "length (fst (fill_fixed_slots (configIds ra) articles 0 ([], {}))) \<le> 4"
    by (rule fill_fixed_slots_length) simp
  then have "length (currentRelatedArticles ra articles) \<le> 4"
    unfolding currentRelatedArticles_def Let_def by (intro fill_empty_slots_length) simp
  moreover have "js_get (currentRelatedArticles ra articles) 3 \<noteq> None"
    by (rule currentRelatedArticles_filled) simp
  then have "3 < length (currentRelatedArticles ra articles)"
    by (auto dest: js_get_Some_length)
  ultimately show ?thesis by simp
qed

lemma list_of_four:
  assumes "length xs = 4"
  shows "xs = [xs ! 0, xs ! 1, xs ! 2, xs ! 3]"
proof (rule nth_equalityI)
  show "length xs = length [xs ! 0, xs ! 1, xs ! 2, xs ! 3]" using assms by simp
next
  fix i assume "i < length xs"
  then have "i = 0 \<or> i = 1 \<or> i = 2 \<or> i = 3" using assms by auto
  then show "xs ! i = [xs ! 0, xs ! 1, xs ! 2, xs ! 3] ! i" by auto
qed

lemma currentRelatedArticles_nth:
  assumes "j < 4"
  shows "currentRelatedArticles ra articles ! j = js_get (currentRelatedArticles ra articles) j"
  using assms by (simp add: js_get_def currentRelatedArticles_length)

lemma currentRelatedArticles_slots:
  "currentRelatedArticles ra articles =
     [js_get (currentRelatedArticles ra articles) 0, js_get (currentRelatedArticles ra articles) 1,
      js_get (currentRelatedArticles ra articles) 2, js_get (currentRelatedArticles ra articles) 3]"
  using list_of_four [OF currentRelatedArticles_length, of ra articles]
  by (simp add: currentRelatedArticles_nth)

text \<open>
  Claim C2. For every list of preferred ids and every collection holding at least one
  article, the returned sequence has exactly 4 entries, and none of them is a hole.
\<close>

theorem related_articles_four_entries:
  "articles \<noteq> [] \<Longrightarrow>
     length (currentRelatedArticles ra articles) = 4
     \<and> None \<notin> set (currentRelatedArticles ra articles)"
proof -
  have "None \<notin> set (currentRelatedArticles ra articles)"
  proof
    assume "None \<in> set (currentRelatedArticles ra articles)"
    then obtain j where j: "j < 4" and n: "currentRelatedArticles ra articles ! j = None"
      by (auto simp: in_set_conv_nth currentRelatedArticles_length)
    then show False
      using currentRelatedArticles_filled [OF j, of ra articles]
      by (simp add: currentRelatedArticles_nth)
  qed
  then show ?thesis by (simp add: currentRelatedArticles_length)
qed

text \<open>C2 on a collection of one article, with a resolved, an absent and an unknown id.\<close>

theorem related_articles_four_entries_witness:
  "[\<lparr>id_article = 5, title = ''Knots'', url = ''/knots''\<rparr>] \<noteq> []
   \<and> length (currentRelatedArticles (Some [Some 5, None, Some 9])
               [\<lparr>id_article = 5, title = ''Knots'', url = ''/knots''\<rparr>]) = 4
   \<and> None \<notin> set (currentRelatedArticles (Some [Some 5, None, Some 9])
               [\<lparr>id_article = 5, title = ''Knots'', url = ''/knots''\<rparr>])"
proof -
  have ne: "[\<lparr>id_article = 5, title = ''Knots'', url = ''/knots''\<rparr>] \<noteq> []" by simp
  show ?thesis
    using ne related_articles_four_entries [OF ne, of "Some [Some 5, None, Some 9]"] by simp
qed

text \<open>
  Claim C5. On the empty collection, whatever the preferred ids, the result is 4 copies of
  the placeholder article, whose id is 0 and whose title is "No Article".
\<close>

theorem no_articles_gives_placeholders:
  "currentRelatedArticles ra [] = [Some no_article, Some no_article, Some no_article, Some no_article]
   \<and> id_article no_article = 0 \<and> title no_article = ''No Article''"
proof -
  have "js_get (currentRelatedArticles ra []) j = Some no_article" if "j < 4" for j
    unfolding currentRelatedArticles_get [OF that]
    by (simp add: first_pass_get fillers_of_def fallback_article_def)
  then have "currentRelatedArticles ra [] = [Some no_article, Some no_article, Some no_article, Some no_article]"
    by (subst currentRelatedArticles_slots) simp
  then show ?thesis by (simp add: no_article_def)
qed

section \<open>Related articles: preferred ids\<close>

text \<open>The definitions that evaluate the slot filling on a concrete input.\<close>

lemmas slot_eval =
  currentRelatedArticles_def configIds_def fill_fixed_slots.simps fixed_slot_step_def
  fill_empty_slots.simps empty_slot_step_def fillers_of_def fallback_article_def
  truthy_id_def js_get_def js_set_def Let_def

text \<open>
  Claim C1, as amended. When the same id, truthy and resolved by an article of the
  collection, is configured at two indices i < j below 4, the first loop places that
  article at slot i and at slot j: it never looks at the used ids. Both slots keep the
  article in the returned grid, and the article is not among the fillers.
\<close>

theorem duplicate_preferred_id_fills_both_slots:
  assumes "i < j" and "j < 4"
    and "js_get (configIds ra) i = Some n" and "js_get (configIds ra) j = Some n"
    and "n \<noteq> 0"
    and "find (\<lambda>a. id_article a = n) articles = Some art"
  shows "js_get (fst (fill_fixed_slots (configIds ra) articles 0 ([], {}))) i = Some art
       \<and> js_get (fst (fill_fixed_slots (configIds ra) articles 0 ([], {}))) j = Some art
       \<and> js_get (currentRelatedArticles ra articles) i = Some art
       \<and> js_get (currentRelatedArticles ra articles) j = Some art
       \<and> art \<notin> set (fillers_of articles (snd (fill_fixed_slots (configIds ra) articles 0 ([], {}))))"
proof -
  let ?st1 = "fill_fixed_slots (configIds ra) articles 0 ([], {})"
  have i4: "i < 4" using assms(1,2) by simp
  have pi: "js_get (fst ?st1) i = Some art"
    using assms(3,5,6) i4 by (simp add: first_pass_get truthy_id_def)
  have pj: "js_get (fst ?st1) j = Some art"
    using assms(2,4,5,6) by (simp add: first_pass_get truthy_id_def)
  have fi: "js_get (currentRelatedArticles ra articles) i = Some art"
    unfolding currentRelatedArticles_get [OF i4] using pi by simp
  have fj: "js_get (currentRelatedArticles ra articles) j = Some art"
    unfolding currentRelatedArticles_get [OF assms(2)] using pj by simp
  have "truthy_id (js_get (configIds ra) j)
        \<and> find (\<lambda>a. Some (id_article a) = js_get (configIds ra) j) articles = Some art"
    using assms(4,5,6) by (simp add: truthy_id_def)
  then have "id_article art \<in> snd ?st1"
    unfolding first_pass_used using assms(2) by blast
  then have nf: "art \<notin> set (fillers_of articles (snd ?st1))"
    by (simp add: fillers_of_def)
  from pi pj fi fj nf show ?thesis by simp
qed

text \<open>
  The amended C1 on the preferred ids [1, 1] and two articles.
\<close>

theorem duplicate_preferred_id_fills_both_slots_witness:
  "js_get (configIds (Some [Some 1, Some 1])) 0 = Some 1
   \<and> js_get (configIds (Some [Some 1, Some 1])) 1 = Some 1
   \<and> find (\<lambda>a. id_article a = 1)
        [\<lparr>id_article = 1, title = ''A'', url = ''/a''\<rparr>, \<lparr>id_article = 2, title = ''B'', url = ''/b''\<rparr>]
       = Some \<lparr>id_article = 1, title = ''A'', url = ''/a''\<rparr>
   \<and> js_get (currentRelatedArticles (Some [Some 1, Some 1])
        [\<lparr>id_article = 1, title = ''A'', url = ''/a''\<rparr>, \<lparr>id_article = 2, title = ''B'', url = ''/b''\<rparr>]) 0
       = Some \<lparr>id_article = 1, title = ''A'', url = ''/a''\<rparr>
   \<and> js_get (currentRelatedArticles (Some [Some 1, Some 1])
        [\<lparr>id_article = 1, title = ''A'', url = ''/a''\<rparr>, \<lparr>id_article = 2, title = ''B'', url = ''/b''\<rparr>]) 1
       = Some \<lparr>id_article = 1, title = ''A'', url = ''/a''\<rparr>"
proof -
  let ?ra = "Some [Some 1, Some (1::int)]"
  let ?arts = "[\<lparr>id_article = 1, title = ''A'', url = ''/a''\<rparr>, \<lparr>id_article = 2, title = ''B'', url = ''/b''\<rparr>]"
  have h1: "(0::nat) < 1" and h2: "(1::nat) < 4" by simp_all
  have h3: "js_get (configIds ?ra) 0 = Some 1" and h4: "js_get (configIds ?ra) 1 = Some 1"
    by (simp_all add: configIds_def js_get_def)
  have h5: "(1::int) \<noteq> 0" by simp
  have h6: "find (\<lambda>a. id_article a = 1) ?arts = Some \<lparr>id_article = 1, title = ''A'', url = ''/a''\<rparr>"
    by simp
  from duplicate_preferred_id_fills_both_slots [OF h1 h2 h3 h4 h5 h6] h3 h4 h6
  show ?thesis by blast
qed

text \<open>
  Claim C1 as first stated fails: with preferred ids [1, 1] and five articles, slot 1 is
  not left empty by the first loop, and the grid holds article 1 twice, which is not one
  of the fillers; the first filler, article 2, comes only at slot 2.
\<close>

theorem duplicate_preferred_id_counterexample:
  "js_get (fst (fill_fixed_slots (configIds (Some [Some 1, Some 1]))
        [\<lparr>id_article = 1, title = ''A'', url = ''/a''\<rparr>, \<lparr>id_article = 2, title = ''B'', url = ''/b''\<rparr>,
         \<lparr>id_article = 3, title = ''C'', url = ''/c''\<rparr>, \<lparr>id_article = 4, title = ''D'', url = ''/d''\<rparr>,
         \<lparr>id_article = 5, title = ''E'', url = ''/e''\<rparr>] 0 ([], {}))) 1 \<noteq> None
   \<and> currentRelatedArticles (Some [Some 1, Some 1])
        [\<lparr>id_article = 1, title = ''A'', url = ''/a''\<rparr>, \<lparr>id_article = 2, title = ''B'', url = ''/b''\<rparr>,
         \<lparr>id_article = 3, title = ''C'', url = ''/c''\<rparr>, \<lparr>id_article = 4, title = ''D'', url = ''/d''\<rparr>,
         \<lparr>id_article = 5, title = ''E'', url = ''/e''\<rparr>]
     = [Some \<lparr>id_article = 1, title = ''A'', url = ''/a''\<rparr>, Some \<lparr>id_article = 1, title = ''A'', url = ''/a''\<rparr>,
        Some \<lparr>id_article = 2, title = ''B'', url = ''/b''\<rparr>, Some \<lparr>id_article = 3, title = ''C'', url = ''/c''\<rparr>]
   \<and> fillers_of
        [\<lparr>id_article = 1, title = ''A'', url = ''/a''\<rparr>, \<lparr>id_article = 2, title = ''B'', url = ''/b''\<rparr>,
         \<lparr>id_article = 3, title = ''C'', url = ''/c''\<rparr>, \<lparr>id_article = 4, title = ''D'', url = ''/d''\<rparr>,
         \<lparr>id_article = 5, title = ''E'', url = ''/e''\<rparr>]
        (snd (fill_fixed_slots (configIds (Some [Some 1, Some 1]))
        [\<lparr>id_article = 1, title = ''A'', url = ''/a''\<rparr>, \<lparr>id_article = 2, title = ''B'', url = ''/b''\<rparr>,
         \<lparr>id_article = 3, title = ''C'', url = ''/c''\<rparr>, \<lparr>id_article = 4, title = ''D'', url = ''/d''\<rparr>,
         \<lparr>id_article = 5, title = ''E'', url = ''/e''\<rparr>] 0 ([], {})))
     = [\<lparr>id_article = 2, title = ''B'', url = ''/b''\<rparr>,
         \<lparr>id_article = 3, title = ''C'', url = ''/c''\<rparr>, \<lparr>id_article = 4, title = ''D'', url = ''/d''\<rparr>,
         \<lparr>id_article = 5, title = ''E'', url = ''/e''\<rparr>]"
  by (simp add: slot_eval)

text \<open>
  Claim C10. A preferred entry that is 0, null or missing is falsy, so the first loop
  leaves its slot empty whatever the collection holds, an article of id 0 included; the
  second loop then writes the slot: the next filler, counted by the empty slots before
  it, or the fallback article when the fillers are used up.
\<close>

theorem falsy_preferred_id_left_to_second_loop:
  assumes "j < 4" and "\<not> truthy_id (js_get (configIds ra) j)"
  shows "js_get (fst (fill_fixed_slots (configIds ra) articles 0 ([], {}))) j = None
       \<and> js_get (currentRelatedArticles ra articles) j =
           Some (let fillers = fillers_of articles (snd (fill_fixed_slots (configIds ra) articles 0 ([], {})));
                     n = length (filter (\<lambda>k. js_get (fst (fill_fixed_slots (configIds ra) articles 0 ([], {}))) k = None) [0..<j])
                 in if n < length fillers then fillers ! n else fallback_article articles)"
proof -
  have p: "js_get (fst (fill_fixed_slots (configIds ra) articles 0 ([], {}))) j = None"
    using assms(2) by (simp add: first_pass_get)
  show ?thesis
    unfolding currentRelatedArticles_get [OF assms(1)] using p by (simp add: Let_def)
qed

text \<open>
  C10 on the preferred ids [0] and a collection that holds an article of id 0: slot 0
  gets the first filler, article 1.
\<close>

theorem falsy_preferred_id_left_to_second_loop_witness:
  "\<not> truthy_id (js_get (configIds (Some [Some 0])) 0)
   \<and> js_get (fst (fill_fixed_slots (configIds (Some [Some 0]))
        [\<lparr>id_article = 1, title = ''A'', url = ''/a''\<rparr>, \<lparr>id_article = 0, title = ''Z'', url = ''/z''\<rparr>,
         \<lparr>id_article = 2, title = ''B'', url = ''/b''\<rparr>] 0 ([], {}))) 0 = None
   \<and> js_get (currentRelatedArticles (Some [Some 0])
        [\<lparr>id_article = 1, title = ''A'', url = ''/a''\<rparr>, \<lparr>id_article = 0, title = ''Z'', url = ''/z''\<rparr>,
         \<lparr>id_article = 2, title = ''B'', url = ''/b''\<rparr>]) 0
       = Some \<lparr>id_article = 1, title = ''A'', url = ''/a''\<rparr>"
proof -
  let ?arts = "[\<lparr>id_article = 1, title = ''A'', url = ''/a''\<rparr>, \<lparr>id_article = 0, title = ''Z'', url = ''/z''\<rparr>,
         \<lparr>id_article = 2, title = ''B'', url = ''/b''\<rparr>]"
  have h1: "(0::nat) < 4" by simp
  have h2: "\<not> truthy_id (js_get (configIds (Some [Some 0])) 0)"
    by (simp add: configIds_def js_get_def truthy_id_def)
  have f: "fillers_of ?arts (snd (fill_fixed_slots (configIds (Some [Some 0])) ?arts 0 ([], {}))) = ?arts"
    by (simp add: slot_eval)
  from falsy_preferred_id_left_to_second_loop [OF h1 h2, of ?arts] h2 show ?thesis
    unfolding f by simp
qed

text \<open>
  Claim C8. On a non-empty collection, an empty slot that comes when the fillers are
  used up (at least as many empty slots before it as there are fillers) receives the
  first article of the collection, so an article can be repeated in the grid.
\<close>

theorem exhausted_fillers_repeat_first_article:
  assumes "articles \<noteq> []" and "j < 4"
    and "js_get (fst (fill_fixed_slots (configIds ra) articles 0 ([], {}))) j = None"
    and "length (fillers_of articles (snd (fill_fixed_slots (configIds ra) articles 0 ([], {}))))
           \<le> length (filter (\<lambda>k. js_get (fst (fill_fixed_slots (configIds ra) articles 0 ([], {}))) k = None) [0..<j])"
  shows "js_get (currentRelatedArticles ra articles) j = Some (hd articles)"
proof -
  have "fallback_article articles = hd articles"
    using assms(1) by (cases articles) (simp_all add: fallback_article_def)
  then show ?thesis
    unfolding currentRelatedArticles_get [OF assms(2)] using assms(3,4) by simp
qed

text \<open>
  C8 on a collection of one article that is also the preferred one: no filler is left,
  and slot 2 repeats the article.
\<close>

theorem exhausted_fillers_repeat_first_article_witness:
  "js_get (fst (fill_fixed_slots (configIds (Some [Some 5]))
        [\<lparr>id_article = 5, title = ''E'', url = ''/e''\<rparr>] 0 ([], {}))) 2 = None
   \<and> fillers_of [\<lparr>id_article = 5, title = ''E'', url = ''/e''\<rparr>]
        (snd (fill_fixed_slots (configIds (Some [Some 5]))
           [\<lparr>id_article = 5, title = ''E'', url = ''/e''\<rparr>] 0 ([], {}))) = []
   \<and> js_get (currentRelatedArticles (Some [Some 5]) [\<lparr>id_article = 5, title = ''E'', url = ''/e''\<rparr>]) 2
       = Some \<lparr>id_article = 5, title = ''E'', url = ''/e''\<rparr>"
proof -
  let ?ra = "Some [Some (5::int)]"
  let ?arts = "[\<lparr>id_article = 5, title = ''E'', url = ''/e''\<rparr>]"
  have h1: "?arts \<noteq> []" by simp
  have h2: "(2::nat) < 4" by simp
  have h3: "js_get (fst (fill_fixed_slots (configIds ?ra) ?arts 0 ([], {}))) 2 = None"
    by (simp add: slot_eval)
  have f: "fillers_of ?arts (snd (fill_fixed_slots (configIds ?ra) ?arts 0 ([], {}))) = []"
    by (simp add: slot_eval)
  have h4: "length (fillers_of ?arts (snd (fill_fixed_slots (configIds ?ra) ?arts 0 ([], {}))))
           \<le> length (filter (\<lambda>k. js_get (fst (fill_fixed_slots (configIds ?ra) ?arts 0 ([], {}))) k = None) [0..<2])"
    unfolding f by simp
  from exhausted_fillers_repeat_first_article [OF h1 h2 h3 h4] h3 f show ?thesis by simp
qed

lemma no_preferred_first_pass:
  assumes "\<forall>j<4. \<not> truthy_id (js_get cfg j)"
  shows "js_get (fst (fill_fixed_slots cfg articles 0 ([], {}))) k = None"
    and "snd (fill_fixed_slots cfg articles 0 ([], {})) = {}"
  using assms by (auto simp: first_pass_get first_pass_used)

lemma take_four:
  assumes "4 \<le> length xs"
  shows "take 4 xs = [xs ! 0, xs ! 1, xs ! 2, xs ! 3]"
proof -
  have "length (take 4 xs) = 4" using assms by simp
  from list_of_four [OF this] show ?thesis by simp
qed

text \<open>
  Claim C7. On a collection of at least 4 articles with unique ids, when none of the
  first four preferred entries is a truthy id (the list is missing, empty, or holds only
  absent entries), the grid is the first 4 articles of the collection: 4 pairwise
  distinct articles, all of the collection.
\<close>

theorem no_preferred_ids_four_distinct:
  assumes "4 \<le> length articles" and "distinct (map id_article articles)"
    and "\<forall>j<4. \<not> truthy_id (js_get (configIds ra) j)"
  shows "currentRelatedArticles ra articles = map Some (take 4 articles)
       \<and> length (take 4 articles) = 4 \<and> distinct (take 4 articles)
       \<and> set (take 4 articles) \<subseteq> set articles"
proof -
  have slot: "js_get (currentRelatedArticles ra articles) j = Some (articles ! j)" if "j < 4" for j
    unfolding currentRelatedArticles_get [OF that]
    using that assms(1)
    by (simp add: no_preferred_first_pass [OF assms(3)] fillers_of_def)
  have "currentRelatedArticles ra articles
        = [Some (articles ! 0), Some (articles ! 1), Some (articles ! 2), Some (articles ! 3)]"
    by (subst currentRelatedArticles_slots) (simp add: slot)
  then have eq: "currentRelatedArticles ra articles = map Some (take 4 articles)"
    by (simp add: take_four [OF assms(1)])
  have "distinct articles" using assms(2) by (simp add: distinct_map)
  then have d: "distinct (take 4 articles)" by simp
  have s: "set (take 4 articles) \<subseteq> set articles" by (rule set_take_subset)
  from eq d s assms(1) show ?thesis by simp
qed

text \<open>
  C7 on five articles and the preferred entries [null, 0].
\<close>

theorem no_preferred_ids_four_distinct_witness:
  "currentRelatedArticles (Some [None, Some 0])
        [\<lparr>id_article = 1, title = ''A'', url = ''/a''\<rparr>, \<lparr>id_article = 2, title = ''B'', url = ''/b''\<rparr>,
         \<lparr>id_article = 3, title = ''C'', url = ''/c''\<rparr>, \<lparr>id_article = 4, title = ''D'', url = ''/d''\<rparr>,
         \<lparr>id_article = 5, title = ''E'', url = ''/e''\<rparr>]
     = [Some \<lparr>id_article = 1, title = ''A'', url = ''/a''\<rparr>, Some \<lparr>id_article = 2, title = ''B'', url = ''/b''\<rparr>,
        Some \<lparr>id_article = 3, title = ''C'', url = ''/c''\<rparr>, Some \<lparr>id_article = 4, title = ''D'', url = ''/d''\<rparr>]"
proof -
  let ?arts = "[\<lparr>id_article = 1, title = ''A'', url = ''/a''\<rparr>, \<lparr>id_article = 2, title = ''B'', url = ''/b''\<rparr>,
         \<lparr>id_article = 3, title = ''C'', url = ''/c''\<rparr>, \<lparr>id_article = 4, title = ''D'', url = ''/d''\<rparr>,
         \<lparr>id_article = 5, title = ''E'', url = ''/e''\<rparr>]"
  have h1: "4 \<le> length ?arts" by simp
  have h2: "distinct (map id_article ?arts)" by simp
  have h3: "\<forall>j<4. \<not> truthy_id (js_get (configIds (Some [None, Some 0])) j)"
    by (auto simp: configIds_def js_get_def truthy_id_def nth_Cons' split: option.splits)
  from no_preferred_ids_four_distinct [OF h1 h2 h3] show ?thesis by simp
qed

lemma find_by_unique_id:
  assumes "distinct (map f xs)" and "a \<in> set xs"
  shows "find (\<lambda>x. f x = f a) xs = Some a"
  using assms by (induction xs) (auto simp: image_iff)

lemma length_others_by_unique_id:
  assumes "distinct (map f xs)" and "a \<in> set xs"
  shows "Suc (length (filter (\<lambda>x. f x \<noteq> f a) xs)) = length xs"
  using assms
proof (induction xs)
  case Nil
  then show ?case by simp
next
  case (Cons x xs)
  show ?case
  proof (cases "x = a")
    case True
    then have "\<forall>y\<in>set xs. f y \<noteq> f a" using Cons.prems(1) by (auto simp: image_iff)
    then have "filter (\<lambda>x. f x \<noteq> f a) xs = xs" by (simp add: filter_id_conv)
    with True show ?thesis by simp
  next
    case False
    then have "a \<in> set xs" using Cons.prems(2) by simp
    moreover have "distinct (map f xs)" using Cons.prems(1) by simp
    ultimately have IH: "Suc (length (filter (\<lambda>x. f x \<noteq> f a) xs)) = length xs"
      by (rule Cons.IH [rotated])
    have "f x \<noteq> f a" using Cons.prems(1) \<open>a \<in> set xs\<close> by (auto simp: image_iff)
    with IH show ?thesis by simp
  qed
qed

lemma single_preferred_first_pass:
  assumes "distinct (map id_article articles)" and "a \<in> set articles" and "id_article a \<noteq> 0"
  shows "js_get (fst (fill_fixed_slots [Some (id_article a)] articles 0 ([], {}))) k
           = (if k = 0 then Some a else None)"
    and "snd (fill_fixed_slots [Some (id_article a)] articles 0 ([], {})) = {id_article a}"
proof -
  have f: "find (\<lambda>x. id_article x = id_article a) articles = Some a"
    using assms(1,2) by (rule find_by_unique_id)
  have g: "js_get [Some (id_article a)] k = (if k = 0 then Some (id_article a) else None)" for k
    by (simp add: js_get_def)
  show "js_get (fst (fill_fixed_slots [Some (id_article a)] articles 0 ([], {}))) k
           = (if k = 0 then Some a else None)"
    using assms(3) f by (simp add: first_pass_get g truthy_id_def)
  show "snd (fill_fixed_slots [Some (id_article a)] articles 0 ([], {})) = {id_article a}"
    unfolding first_pass_used using assms(3) f by (auto simp: g truthy_id_def split: if_splits)
qed

lemma empties_before:
  "filter (\<lambda>k. (if k = 0 then Some a else None) = None) [0..<Suc j] = [1..<Suc j]"
proof -
  have "[0..<Suc j] = 0 # [1..<Suc j]" by (simp add: upt_conv_Cons)
  then show ?thesis by (simp add: filter_id_conv)
qed

text \<open>
  Claim C6, as amended. On a collection of at least 4 articles with unique ids, for an
  article a of the collection whose id is not 0, the preferred list [a.id] gives a at slot
  0, and slots 1 to 3 hold articles of the collection other than a.
\<close>

theorem single_preferred_id_first_slot:
  assumes "4 \<le> length articles" and "distinct (map id_article articles)"
    and "a \<in> set articles" and "id_article a \<noteq> 0"
  shows "\<exists>b c d. currentRelatedArticles (Some [Some (id_article a)]) articles
                    = [Some a, Some b, Some c, Some d]
          \<and> b \<noteq> a \<and> c \<noteq> a \<and> d \<noteq> a
          \<and> b \<in> set articles \<and> c \<in> set articles \<and> d \<in> set articles"
proof -
  let ?ra = "Some [Some (id_article a)]"
  let ?fillers = "filter (\<lambda>x. id_article x \<noteq> id_article a) articles"
  note fp = single_preferred_first_pass [OF assms(2,3,4)]
  have cfg: "configIds ?ra = [Some (id_article a)]" by (simp add: configIds_def)
  have len: "3 \<le> length ?fillers"
    using length_others_by_unique_id [OF assms(2,3)] assms(1) by simp
  have s0: "js_get (currentRelatedArticles ?ra articles) 0 = Some a"
    by (simp add: currentRelatedArticles_get cfg fp)
  have cnt: "length (filter (\<lambda>k. (if k = 0 then Some a else None) = None) [0..<Suc j]) = j" for j
    unfolding empties_before by simp
  have sj: "js_get (currentRelatedArticles ?ra articles) (Suc j) = Some (?fillers ! j)" if "j < 3" for j
  proof -
    have "Suc j < 4" using that by simp
    show ?thesis
      unfolding currentRelatedArticles_get [OF \<open>Suc j < 4\<close>] cfg fp fillers_of_def
      unfolding cnt
      using that len by simp
  qed
  have mem: "?fillers ! j \<in> set ?fillers" if "j < 3" for j
  proof (rule nth_mem)
    show "j < length ?fillers" using that len by simp
  qed
  have ne: "?fillers ! j \<noteq> a" and inn: "?fillers ! j \<in> set articles" if "j < 3" for j
    using mem [OF that] by auto
  have "currentRelatedArticles ?ra articles
        = [Some a, Some (?fillers ! 0), Some (?fillers ! 1), Some (?fillers ! 2)]"
    using s0 sj [of 0] sj [of 1] sj [of 2]
    by (subst currentRelatedArticles_slots) (simp add: numeral_2_eq_2 numeral_3_eq_3)
  then show ?thesis
    using ne [of 0] ne [of 1] ne [of 2] inn [of 0] inn [of 1] inn [of 2] by simp
qed

text \<open>
  The amended C6 on four articles and the preferred id 2.
\<close>

theorem single_preferred_id_first_slot_witness:
  "4 \<le> length [\<lparr>id_article = 1, title = ''A'', url = ''/a''\<rparr>, \<lparr>id_article = 2, title = ''B'', url = ''/b''\<rparr>,
                 \<lparr>id_article = 3, title = ''C'', url = ''/c''\<rparr>, \<lparr>id_article = 4, title = ''D'', url = ''/d''\<rparr>]
   \<and> distinct (map id_article
                [\<lparr>id_article = 1, title = ''A'', url = ''/a''\<rparr>, \<lparr>id_article = 2, title = ''B'', url = ''/b''\<rparr>,
                 \<lparr>id_article = 3, title = ''C'', url = ''/c''\<rparr>, \<lparr>id_article = 4, title = ''D'', url = ''/d''\<rparr>])
   \<and> id_article \<lparr>id_article = 2, title = ''B'', url = ''/b''\<rparr> \<noteq> 0
   \<and> (\<exists>b c d. currentRelatedArticles (Some [Some (id_article \<lparr>id_article = 2, title = ''B'', url = ''/b''\<rparr>)])
                [\<lparr>id_article = 1, title = ''A'', url = ''/a''\<rparr>, \<lparr>id_article = 2, title = ''B'', url = ''/b''\<rparr>,
                 \<lparr>id_article = 3, title = ''C'', url = ''/c''\<rparr>, \<lparr>id_article = 4, title = ''D'', url = ''/d''\<rparr>]
             = [Some \<lparr>id_article = 2, title = ''B'', url = ''/b''\<rparr>, Some b, Some c, Some d]
      \<and> b \<noteq> \<lparr>id_article = 2, title = ''B'', url = ''/b''\<rparr>
      \<and> c \<noteq> \<lparr>id_article = 2, title = ''B'', url = ''/b''\<rparr>
      \<and> d \<noteq> \<lparr>id_article = 2, title = ''B'', url = ''/b''\<rparr>
      \<and> b \<in> set [\<lparr>id_article = 1, title = ''A'', url = ''/a''\<rparr>, \<lparr>id_article = 2, title = ''B'', url = ''/b''\<rparr>,
                 \<lparr>id_article = 3, title = ''C'', url = ''/c''\<rparr>, \<lparr>id_article = 4, title = ''D'', url = ''/d''\<rparr>]
      \<and> c \<in> set [\<lparr>id_article = 1, title = ''A'', url = ''/a''\<rparr>, \<lparr>id_article = 2, title = ''B'', url = ''/b''\<rparr>,
                 \<lparr>id_article = 3, title = ''C'', url = ''/c''\<rparr>, \<lparr>id_article = 4, title = ''D'', url = ''/d''\<rparr>]
      \<and> d \<in> set [\<lparr>id_article = 1, title = ''A'', url = ''/a''\<rparr>, \<lparr>id_article = 2, title = ''B'', url = ''/b''\<rparr>,
                 \<lparr>id_article = 3, title = ''C'', url = ''/c''\<rparr>, \<lparr>id_article = 4, title = ''D'', url = ''/d''\<rparr>])"
proof -
  let ?a = "\<lparr>id_article = 2, title = ''B'', url = ''/b''\<rparr>"
  let ?arts = "[\<lparr>id_article = 1, title = ''A'', url = ''/a''\<rparr>, \<lparr>id_article = 2, title = ''B'', url = ''/b''\<rparr>,
                \<lparr>id_article = 3, title = ''C'', url = ''/c''\<rparr>, \<lparr>id_article = 4, title = ''D'', url = ''/d''\<rparr>]"
  have h1: "4 \<le> length ?arts" by simp
  have h2: "distinct (map id_article ?arts)" by simp
  have h3: "?a \<in> set ?arts" by simp
  have h4: "id_article ?a \<noteq> 0" by simp
  note r = single_preferred_id_first_slot [OF h1 h2 h3 h4]
  show ?thesis
    by (rule conjI [OF h1 conjI [OF h2 conjI [OF h4 r]]])
qed

text \<open>
  Claim C6 as first stated fails for an article of id 0: the id is falsy, slot 0 gets the
  first filler, and the article itself comes at slot 1.
\<close>

theorem single_preferred_id_zero_counterexample:
  "4 \<le> length [\<lparr>id_article = 1, title = ''A'', url = ''/a''\<rparr>, \<lparr>id_article = 0, title = ''Z'', url = ''/z''\<rparr>,
                 \<lparr>id_article = 2, title = ''B'', url = ''/b''\<rparr>, \<lparr>id_article = 3, title = ''C'', url = ''/c''\<rparr>]
   \<and> distinct (map id_article
                [\<lparr>id_article = 1, title = ''A'', url = ''/a''\<rparr>, \<lparr>id_article = 0, title = ''Z'', url = ''/z''\<rparr>,
                 \<lparr>id_article = 2, title = ''B'', url = ''/b''\<rparr>, \<lparr>id_article = 3, title = ''C'', url = ''/c''\<rparr>])
   \<and> \<lparr>id_article = 0, title = ''Z'', url = ''/z''\<rparr>
        \<in> set [\<lparr>id_article = 1, title = ''A'', url = ''/a''\<rparr>, \<lparr>id_article = 0, title = ''Z'', url = ''/z''\<rparr>,
                 \<lparr>id_article = 2, title = ''B'', url = ''/b''\<rparr>, \<lparr>id_article = 3, title = ''C'', url = ''/c''\<rparr>]
   \<and> currentRelatedArticles (Some [Some (id_article \<lparr>id_article = 0, title = ''Z'', url = ''/z''\<rparr>)])
                [\<lparr>id_article = 1, title = ''A'', url = ''/a''\<rparr>, \<lparr>id_article = 0, title = ''Z'', url = ''/z''\<rparr>,
                 \<lparr>id_article = 2, title = ''B'', url = ''/b''\<rparr>, \<lparr>id_article = 3, title = ''C'', url = ''/c''\<rparr>]
       = [Some \<lparr>id_article = 1, title = ''A'', url = ''/a''\<rparr>, Some \<lparr>id_article = 0, title = ''Z'', url = ''/z''\<rparr>,
          Some \<lparr>id_article = 2, title = ''B'', url = ''/b''\<rparr>, Some \<lparr>id_article = 3, title = ''C'', url = ''/c''\<rparr>]
   \<and> js_get (currentRelatedArticles (Some [Some (id_article \<lparr>id_article = 0, title = ''Z'', url = ''/z''\<rparr>)])
                [\<lparr>id_article = 1, title = ''A'', url = ''/a''\<rparr>, \<lparr>id_article = 0, title = ''Z'', url = ''/z''\<rparr>,
                 \<lparr>id_article = 2, title = ''B'', url = ''/b''\<rparr>, \<lparr>id_article = 3, title = ''C'', url = ''/c''\<rparr>]) 0
       \<noteq> Some \<lparr>id_article = 0, title = ''Z'', url = ''/z''\<rparr>"
  by (simp add: slot_eval)

end
